theory Spec2Isabelle
  imports Complex_Main
begin

section \<open>The lease manager of the subscriber\<close>

text \<open>
  A shallow embedding of the class \<open>LeaseManager\<close>: the inventory of messages a
  subscriber holds, its flow control and its deadline extension sweep. Every method
  is a function from the manager's state to its new state. What the methods do to
  the outside (events emitted to listeners, callbacks handed to
  \<open>process.nextTick\<close>, modAck calls on messages) is recorded in the state, in the
  order in which it happens. Tracing spans (\<open>message.subSpans\<close>) have no effect on the
  manager and are left out.

  Numbers: byte counts, sizes and times in milliseconds are integers; the timeout of
  the sweep and a message's lifespan in minutes are fractions and are modelled as
  reals, not as IEEE doubles.
\<close>

subsection \<open>Values, messages, the subscriber\<close>

text \<open>The values an option can hold. A property that is absent reads as \<open>undefined\<close>.\<close>

datatype jsval = Undefined | Boolean bool | Number int

text \<open>
  \<open>FlowControlOptions\<close>: an object whose properties are all optional. It is a map
  from property names to values, so that a property can be absent, and so that an
  object with further properties is an argument too, as it is for JavaScript.
\<close>

type_synonym FlowControlOptions = "string \<rightharpoonup> jsval"

text \<open>The truth value of \<open>x!\<close> in a condition.\<close>

fun truthy :: "jsval option \<Rightarrow> bool" where
  "truthy None = False"
| "truthy (Some Undefined) = False"
| "truthy (Some (Boolean b)) = b"
| "truthy (Some (Number n)) = (n \<noteq> 0)"

text \<open>
  \<open>x >= v\<close> for a number \<open>x\<close>: \<open>undefined\<close> converts to NaN, and every comparison
  with NaN is false; a boolean converts to 0 or 1.
\<close>

fun js_ge :: "int \<Rightarrow> jsval option \<Rightarrow> bool" where
  "js_ge x None = False"
| "js_ge x (Some Undefined) = False"
| "js_ge x (Some (Boolean b)) = (x \<ge> (if b then 1 else 0))"
| "js_ge x (Some (Number n)) = (x \<ge> n)"

text \<open>
  A message, as far as the manager reads it: \<open>length\<close> (the size of its data in bytes,
  a count and so never negative) and \<open>received\<close> (the time of receipt, in
  milliseconds). The class \<open>Message\<close> is not among the sources; \<open>ident\<close> stands for the
  identity of the object, by which the set of held messages tells messages apart.
\<close>

record message =
  ident :: nat
  msg_length :: nat
  received :: int

text \<open>
  What the manager reads of its \<open>Subscriber\<close> (not among the sources):
  \<open>ackDeadline\<close> in seconds, \<open>maxExtensionTime\<close> as its total in minutes,
  \<open>modAckLatency\<close> in milliseconds.
\<close>

record subscriber =
  isOpen :: bool
  ackDeadline :: real
  maxExtensionMinutes :: real
  modAckLatency :: real
  isExactlyOnceDelivery :: bool

subsection \<open>Effects\<close>

text \<open>
  The events: \<open>full\<close> and \<open>free\<close> are emitted by the manager, \<open>message\<close> by the subscriber.
  A callback given to \<open>process.nextTick\<close> emits one event when it runs, so the queue
  of callbacks is a list of events.
\<close>

datatype event = Full | Free | MessageEv message

text \<open>
  A listener runs when its event is emitted. What it then calls on the manager is a
  later call: \<open>add\<close> emits as its last statement, and a deferred callback runs when
  the call that deferred it has returned.

  The calls of the sweep on a message, each with the deadline in seconds.
\<close>

datatype renewal = ModAck message real | ModAckWithResponse message real

text \<open>
  The error that the documentation of \<open>setOptions\<close> names. A method that can fail
  returns \<open>Inl\<close> of its error, and \<open>Inr\<close> of the new state when it returns normally.
\<close>

datatype error = RangeError

record lease_manager =
  bytes :: int
  isLeasing :: bool
  messages :: "message list"
  options :: FlowControlOptions
  pending :: "message list"
  subscriber :: subscriber
  timer :: "real option"
  nextTick :: "event list"
  emitted :: "event list"
  modAcks :: "renewal list"

text \<open>
  \<open>messages\<close> is the \<open>Set\<close> of held messages in insertion order, the order in which
  the set is iterated: adding a member again changes nothing, deleting removes it.
\<close>

definition set_add :: "'a \<Rightarrow> 'a list \<Rightarrow> 'a list" where
  "set_add x xs = (if x \<in> set xs then xs else xs @ [x])"

definition set_delete :: "'a \<Rightarrow> 'a list \<Rightarrow> 'a list" where
  "set_delete x xs = removeAll x xs"

text \<open>Running the callback at the head of the \<open>nextTick\<close> queue.\<close>

definition runNextTick :: "lease_manager \<Rightarrow> lease_manager" where
  "runNextTick s =
     (case nextTick s of
        [] \<Rightarrow> s
      | e # q \<Rightarrow> s\<lparr>nextTick := q, emitted := emitted s @ [e]\<rparr>)"

subsection \<open>The methods\<close>

text \<open>
  Modelled from the spec: the module \<open>default-options\<close> is not among the sources; the
  defaults are the ones the spec and the documentation of \<open>FlowControlOptions\<close> give
  (100 MiB and 1000 messages).
\<close>

definition maxOutstandingBytes :: int where
  "maxOutstandingBytes = 104857600"

definition maxOutstandingMessages :: int where
  "maxOutstandingMessages = 1000"

definition defaults :: FlowControlOptions where
  "defaults = [''allowExcessMessages'' \<mapsto> Boolean True,
               ''maxBytes'' \<mapsto> Number maxOutstandingBytes,
               ''maxMessages'' \<mapsto> Number maxOutstandingMessages]"

text \<open>
  \<open>Object.assign(defaults, options)\<close>: every property of \<open>options\<close> overwrites. The body of
  \<open>setOptions\<close> has no \<open>throw\<close>, and the constructor does nothing after calling it.
\<close>

definition setOptions :: "FlowControlOptions \<Rightarrow> lease_manager \<Rightarrow> error + lease_manager" where
  "setOptions opts s = Inr (s\<lparr>options := defaults ++ opts\<rparr>)"

definition new_LeaseManager :: "subscriber \<Rightarrow> FlowControlOptions \<Rightarrow> error + lease_manager" where
  "new_LeaseManager sub opts =
     setOptions opts
       \<lparr>bytes = 0, isLeasing = False, messages = [], options = Map.empty, pending = [],
        subscriber = sub, timer = None, nextTick = [], emitted = [], modAcks = []\<rparr>"

definition get_pending :: "lease_manager \<Rightarrow> nat" where
  "get_pending s = length (pending s)"

definition get_size :: "lease_manager \<Rightarrow> nat" where
  "get_size s = length (messages s)"

definition isFull :: "lease_manager \<Rightarrow> bool" where
  "isFull s =
     (js_ge (int (get_size s)) (options s ''maxMessages'')
      \<or> js_ge (bytes s) (options s ''maxBytes''))"

definition cancelExtension :: "lease_manager \<Rightarrow> lease_manager" where
  "cancelExtension s = s\<lparr>isLeasing := False, timer := None\<rparr>"

definition dispense :: "message \<Rightarrow> lease_manager \<Rightarrow> lease_manager" where
  "dispense m s =
     (if isOpen (subscriber s) then s\<lparr>nextTick := nextTick s @ [MessageEv m]\<rparr> else s)"

text \<open>\<open>jitter\<close> is the value \<open>Math.random()\<close> returns.\<close>

definition getNextExtensionTimeoutMs :: "real \<Rightarrow> lease_manager \<Rightarrow> real" where
  "getNextExtensionTimeoutMs jitter s =
     (let deadline = ackDeadline (subscriber s) * 1000;
          latency = modAckLatency (subscriber s)
      in (deadline * (9 / 10) - latency) * jitter)"

definition scheduleExtension :: "real \<Rightarrow> lease_manager \<Rightarrow> lease_manager" where
  "scheduleExtension jitter s = s\<lparr>timer := Some (getNextExtensionTimeoutMs jitter s)\<rparr>"

definition add :: "real \<Rightarrow> message \<Rightarrow> lease_manager \<Rightarrow> lease_manager" where
  "add jitter m s =
     (let allowExcessMessages = truthy (options s ''allowExcessMessages'');
          wasFull = isFull s;
          s1 = s\<lparr>messages := set_add m (messages s),
                  bytes := bytes s + int (msg_length m)\<rparr>;
          s2 = (if allowExcessMessages \<or> \<not> wasFull then dispense m s1
                else s1\<lparr>pending := pending s1 @ [m]\<rparr>);
          s3 = (if \<not> isLeasing s2 then scheduleExtension jitter (s2\<lparr>isLeasing := True\<rparr>)
                else s2)
      in if \<not> wasFull \<and> isFull s3 then s3\<lparr>emitted := emitted s3 @ [Full]\<rparr> else s3)"

definition clear :: "lease_manager \<Rightarrow> message list \<times> lease_manager" where
  "clear s =
     (let wasFull = isFull s;
          remaining = messages s;
          s1 = s\<lparr>pending := [], messages := [], bytes := 0\<rparr>;
          s2 = (if wasFull then s1\<lparr>nextTick := nextTick s1 @ [Free]\<rparr> else s1)
      in (remaining, cancelExtension s2))"

definition remove :: "message \<Rightarrow> lease_manager \<Rightarrow> lease_manager" where
  "remove m s =
     (if m \<notin> set (messages s) then s
      else
        let wasFull = isFull s;
            s1 = s\<lparr>messages := set_delete m (messages s),
                    bytes := bytes s - int (msg_length m)\<rparr>;
            s2 = (if wasFull \<and> \<not> isFull s1 then s1\<lparr>nextTick := nextTick s1 @ [Free]\<rparr>
                  else if m \<in> set (pending s1) then s1\<lparr>pending := remove1 m (pending s1)\<rparr>
                  else if get_pending s1 > 0
                    then dispense (hd (pending s1)) (s1\<lparr>pending := tl (pending s1)\<rparr>)
                  else s1)
        in if get_size s2 = 0 \<and> isLeasing s2 then cancelExtension s2 else s2)"

text \<open>
  The sweep. \<open>clock m\<close> is what \<open>Date.now()\<close> returns when the loop reaches \<open>m\<close>. The
  loop runs over the held messages in the order of the set; its body deletes no
  message but the one it is at. The deadline is passed on in seconds, as the
  subscriber gives it (\<open>Duration\<close> is not among the sources). Under exactly-once
  delivery the outcome of the call arrives later: a permanent failure then removes
  the message (\<open>modAckFailed\<close>).
\<close>

definition lifespan :: "(message \<Rightarrow> int) \<Rightarrow> message \<Rightarrow> real" where
  "lifespan clock m = real_of_int (clock m - received m) / (60 * 1000)"

definition extendOne ::
  "(message \<Rightarrow> int) \<Rightarrow> message \<Rightarrow> lease_manager \<Rightarrow> lease_manager" where
  "extendOne clock m s =
     (let deadline = ackDeadline (subscriber s)
      in if lifespan clock m < maxExtensionMinutes (subscriber s)
         then (if isExactlyOnceDelivery (subscriber s)
               then s\<lparr>modAcks := modAcks s @ [ModAckWithResponse m deadline]\<rparr>
               else s\<lparr>modAcks := modAcks s @ [ModAck m deadline]\<rparr>)
         else remove m s)"

definition extendDeadlines ::
  "(message \<Rightarrow> int) \<Rightarrow> real \<Rightarrow> lease_manager \<Rightarrow> lease_manager" where
  "extendDeadlines clock jitter s =
     (let s1 = foldl (\<lambda>t m. extendOne clock m t) s (messages s)
      in if isLeasing s1 then scheduleExtension jitter s1 else s1)"

definition modAckFailed :: "message \<Rightarrow> lease_manager \<Rightarrow> lease_manager" where
  "modAckFailed m s = remove m s"

subsection \<open>Sequences of calls\<close>

text \<open>
  The calls a manager receives from its subscriber, and \<open>Tick\<close>: the event loop
  runs the oldest callback of the \<open>nextTick\<close> queue.
\<close>

datatype op = Add real message | Remove message | Clear | Tick

fun step :: "op \<Rightarrow> lease_manager \<Rightarrow> lease_manager" where
  "step (Add jitter m) s = add jitter m s"
| "step (Remove m) s = remove m s"
| "step Clear s = snd (clear s)"
| "step Tick s = runNextTick s"

fun run :: "op list \<Rightarrow> lease_manager \<Rightarrow> lease_manager" where
  "run [] s = s"
| "run (x # xs) s = run xs (step x s)"

text \<open>Every \<open>add\<close> of the sequence is given a message that is not held at that moment.\<close>

fun adds_absent :: "lease_manager \<Rightarrow> op list \<Rightarrow> bool" where
  "adds_absent s [] = True"
| "adds_absent s (Add jitter m # xs) =
     (m \<notin> set (messages s) \<and> adds_absent (add jitter m s) xs)"
| "adds_absent s (x # xs) = adds_absent (step x s) xs"

definition total_length :: "message list \<Rightarrow> int" where
  "total_length xs = (\<Sum>m\<leftarrow>xs. int (msg_length m))"

definition counted :: "lease_manager \<Rightarrow> bool" where
  "counted s = (bytes s = total_length (messages s) \<and> distinct (messages s))"

text \<open>The call the sweep makes for a message it renews, and the message of a call.\<close>

definition renew :: "lease_manager \<Rightarrow> message \<Rightarrow> renewal" where
  "renew s m =
     (if isExactlyOnceDelivery (subscriber s)
      then ModAckWithResponse m (ackDeadline (subscriber s))
      else ModAck m (ackDeadline (subscriber s)))"

fun renewed :: "renewal \<Rightarrow> message" where
  "renewed (ModAck m d) = m"
| "renewed (ModAckWithResponse m d) = m"

subsection \<open>Notifications\<close>

text \<open>
  The \<open>full\<close> and \<open>free\<close> events among the delivered events, and what it is for them to
  alternate.
\<close>

definition notifications :: "event list \<Rightarrow> event list" where
  "notifications es = filter (\<lambda>e. e = Full \<or> e = Free) es"







subsection \<open>The pending queue\<close>

text \<open>
  A message has been dispensed when its \<open>message\<close> event is queued for the next tick or
  has been delivered. \<open>added\<close> lists the messages a sequence adds.
\<close>

definition dispensed :: "lease_manager \<Rightarrow> message \<Rightarrow> bool" where
  "dispensed s m = (MessageEv m \<in> set (nextTick s) \<or> MessageEv m \<in> set (emitted s))"

fun added :: "op list \<Rightarrow> message list" where
  "added [] = []"
| "added (Add jitter m # xs) = m # added xs"
| "added (x # xs) = added xs"

text \<open>
  No \<open>remove\<close> of the sequence is given a held message that is in the pending queue
  while removing it turns the manager from full to not full.
\<close>

fun spares_pending :: "lease_manager \<Rightarrow> op list \<Rightarrow> bool" where
  "spares_pending s [] = True"
| "spares_pending s (Remove m # xs) =
     (\<not> (m \<in> set (messages s) \<and> m \<in> set (pending s) \<and> isFull s \<and> \<not> isFull (remove m s))
      \<and> spares_pending (remove m s) xs)"
| "spares_pending s (x # xs) = spares_pending (step x s) xs"

definition queued :: "message set \<Rightarrow> lease_manager \<Rightarrow> bool" where
  "queued H s =
     (set (pending s) \<subseteq> set (messages s) \<and> distinct (pending s)
      \<and> (\<forall>m \<in> set (pending s). \<not> dispensed s m)
      \<and> set (messages s) \<subseteq> H \<and> (\<forall>m. dispensed s m \<longrightarrow> m \<in> H))"

subsection \<open>Examples\<close>

text \<open>The manager as its constructor returns it.\<close>

definition constructed :: "subscriber \<Rightarrow> FlowControlOptions \<Rightarrow> lease_manager" where
  "constructed sub opts =
     \<lparr>bytes = 0, isLeasing = False, messages = [], options = defaults ++ opts, pending = [],
      subscriber = sub, timer = None, nextTick = [], emitted = [], modAcks = []\<rparr>"

definition demo_subscriber :: subscriber where
  "demo_subscriber =
     \<lparr>isOpen = True, ackDeadline = 10, maxExtensionMinutes = 60, modAckLatency = 0,
      isExactlyOnceDelivery = False\<rparr>"

definition msgA :: message where
  "msgA = \<lparr>ident = 1, msg_length = 10, received = 0\<rparr>"

definition msgB :: message where
  "msgB = \<lparr>ident = 2, msg_length = 5, received = 0\<rparr>"

definition msgC :: message where
  "msgC = \<lparr>ident = 3, msg_length = 5, received = 0\<rparr>"

text \<open>Excess messages wait in the queue; one message, or two, fill the manager.\<close>

definition one_at_a_time :: FlowControlOptions where
  "one_at_a_time = [''allowExcessMessages'' \<mapsto> Boolean False, ''maxMessages'' \<mapsto> Number 1]"

definition two_at_a_time :: FlowControlOptions where
  "two_at_a_time = [''allowExcessMessages'' \<mapsto> Boolean False, ''maxMessages'' \<mapsto> Number 2]"

text \<open>A subscriber whose modAck calls take ten seconds, as long as its deadline.\<close>

definition slow_subscriber :: subscriber where
  "slow_subscriber =
     \<lparr>isOpen = True, ackDeadline = 10, maxExtensionMinutes = 60, modAckLatency = 10000,
      isExactlyOnceDelivery = False\<rparr>"

text \<open>A message received fifty minutes after the others; the clock an hour after them.\<close>

definition msgD :: message where
  "msgD = \<lparr>ident = 4, msg_length = 1, received = 3000000\<rparr>"

definition hour_later :: "message \<Rightarrow> int" where
  "hour_later m = 3600000"

text \<open>Options with both of the extension settings that the documentation of \<open>setOptions\<close> names.\<close>

definition conflicting_extensions :: FlowControlOptions where
  "conflicting_extensions =
     [''maxExtension'' \<mapsto> Number 10, ''maxExtensionMinutes'' \<mapsto> Number 5]"

text \<open>
  The scenario of the spec: excess messages wait, two messages fill the manager, and
  three messages have been added.
\<close>

definition three_added :: lease_manager where
  "three_added =
     run [Add 0 msgA, Add 0 msgB, Add 0 msgC] (constructed demo_subscriber two_at_a_time)"

text \<open>Excess messages wait and ten bytes fill the manager; a manager that is full when empty.\<close>

definition ten_bytes :: FlowControlOptions where
  "ten_bytes = [''allowExcessMessages'' \<mapsto> Boolean False, ''maxBytes'' \<mapsto> Number 10]"

definition no_room :: FlowControlOptions where
  "no_room = [''maxMessages'' \<mapsto> Number 0]"

text \<open>
  A second message received fifty minutes after the others. Two managers that ten
  bytes fill, after three messages were added and the first was removed: the message
  added second has been dispensed, the third is pending, and the manager is full.
\<close>

definition msgE :: message where
  "msgE = \<lparr>ident = 5, msg_length = 5, received = 3000000\<rparr>"

definition flip_next :: lease_manager where
  "flip_next =
     run [Add 0 msgA, Add 0 msgB, Add 0 msgC, Remove msgA] (constructed demo_subscriber ten_bytes)"

definition before_sweep :: lease_manager where
  "before_sweep =
     run [Add 0 msgA, Add 0 msgE, Add 0 msgC, Remove msgA] (constructed demo_subscriber ten_bytes)"

section \<open>What each method changes\<close>

lemma new_LeaseManager_constructed: "new_LeaseManager sub opts = Inr (constructed sub opts)"
  by (simp add: new_LeaseManager_def setOptions_def constructed_def)

lemma demo_messages_distinct:
  "msgA \<noteq> msgB" "msgA \<noteq> msgC" "msgB \<noteq> msgC"
  "msgB \<noteq> msgA" "msgC \<noteq> msgA" "msgC \<noteq> msgB"
  by (simp_all add: msgA_def msgB_def msgC_def)

lemma total_length_delete:
  "distinct xs \<Longrightarrow> m \<in> set xs \<Longrightarrow>
   total_length (set_delete m xs) = total_length xs - int (msg_length m)"
  by (induction xs) (auto simp: total_length_def set_delete_def)

lemma total_length_nonneg: "0 \<le> total_length xs"
  by (induction xs) (simp_all add: total_length_def)

lemma messages_dispense [simp]: "messages (dispense m s) = messages s"
  and bytes_dispense [simp]: "bytes (dispense m s) = bytes s"
  and pending_dispense [simp]: "pending (dispense m s) = pending s"
  and options_dispense [simp]: "options (dispense m s) = options s"
  and emitted_dispense [simp]: "emitted (dispense m s) = emitted s"
  and isLeasing_dispense [simp]: "isLeasing (dispense m s) = isLeasing s"
  and subscriber_dispense [simp]: "subscriber (dispense m s) = subscriber s"
  by (simp_all add: dispense_def)

lemma messages_add: "messages (add jitter m s) = set_add m (messages s)"
  and bytes_add: "bytes (add jitter m s) = bytes s + int (msg_length m)"
  and options_add: "options (add jitter m s) = options s"
  and subscriber_add: "subscriber (add jitter m s) = subscriber s"
  by (simp_all add: add_def Let_def scheduleExtension_def)

lemma messages_remove: "messages (remove m s) = set_delete m (messages s)"
  by (simp add: remove_def Let_def cancelExtension_def set_delete_def)

lemma bytes_remove:
  "bytes (remove m s) =
     (if m \<in> set (messages s) then bytes s - int (msg_length m) else bytes s)"
  by (simp add: remove_def Let_def cancelExtension_def)

lemma options_remove: "options (remove m s) = options s"
  and subscriber_remove: "subscriber (remove m s) = subscriber s"
  by (simp_all add: remove_def Let_def cancelExtension_def)

lemma messages_clear: "messages (snd (clear s)) = []"
  and bytes_clear: "bytes (snd (clear s)) = 0"
  and pending_clear: "pending (snd (clear s)) = []"
  and options_clear: "options (snd (clear s)) = options s"
  and subscriber_clear: "subscriber (snd (clear s)) = subscriber s"
  and emitted_clear: "emitted (snd (clear s)) = emitted s"
  by (simp_all add: clear_def Let_def cancelExtension_def)

lemma pending_add:
  "pending (add jitter m s) =
     (if truthy (options s ''allowExcessMessages'') \<or> \<not> isFull s then pending s
      else pending s @ [m])"
  by (simp add: add_def Let_def scheduleExtension_def)

lemma nextTick_add:
  "nextTick (add jitter m s) =
     (if (truthy (options s ''allowExcessMessages'') \<or> \<not> isFull s) \<and> isOpen (subscriber s)
      then nextTick s @ [MessageEv m] else nextTick s)"
  by (simp add: add_def Let_def scheduleExtension_def dispense_def)

lemma modAcks_remove: "modAcks (remove m s) = modAcks s"
  by (simp add: remove_def Let_def cancelExtension_def dispense_def)

lemma emitted_remove: "emitted (remove m s) = emitted s"
  by (simp add: remove_def Let_def cancelExtension_def)

lemma isFull_updates [simp]:
  "isFull (s\<lparr>pending := p\<rparr>) = isFull s"
  "isFull (s\<lparr>isLeasing := b\<rparr>) = isFull s"
  "isFull (s\<lparr>timer := t\<rparr>) = isFull s"
  "isFull (s\<lparr>nextTick := q\<rparr>) = isFull s"
  "isFull (s\<lparr>emitted := es\<rparr>) = isFull s"
  "isFull (s\<lparr>modAcks := cs\<rparr>) = isFull s"
  "isFull (dispense m s) = isFull s"
  "isFull (scheduleExtension jitter s) = isFull s"
  "isFull (cancelExtension s) = isFull s"
  by (simp_all add: isFull_def get_size_def dispense_def scheduleExtension_def
      cancelExtension_def)

lemma isFull_add:
  "isFull (add jitter m s) =
     isFull (s\<lparr>messages := set_add m (messages s), bytes := bytes s + int (msg_length m)\<rparr>)"
  by (simp add: isFull_def get_size_def messages_add bytes_add options_add)

lemma isFull_remove:
  "m \<in> set (messages s) \<Longrightarrow>
   isFull (remove m s) =
     isFull (s\<lparr>messages := set_delete m (messages s), bytes := bytes s - int (msg_length m)\<rparr>)"
  by (simp add: isFull_def get_size_def messages_remove bytes_remove options_remove)

lemma emitted_add:
  "emitted (add jitter m s) =
     (if \<not> isFull s \<and> isFull (add jitter m s) then emitted s @ [Full] else emitted s)"
  by (simp only: isFull_add) (simp add: add_def Let_def scheduleExtension_def)

lemma pending_remove:
  "m \<in> set (messages s) \<Longrightarrow>
   pending (remove m s) =
     (if isFull s \<and> \<not> isFull (remove m s) then pending s
      else if m \<in> set (pending s) then remove1 m (pending s)
      else tl (pending s))"
  by (simp only: isFull_remove)
     (auto simp: remove_def Let_def cancelExtension_def get_pending_def)

lemma nextTick_remove:
  "m \<in> set (messages s) \<Longrightarrow>
   nextTick (remove m s) =
     (if isFull s \<and> \<not> isFull (remove m s) then nextTick s @ [Free]
      else if m \<in> set (pending s) then nextTick s
      else if pending s \<noteq> [] \<and> isOpen (subscriber s)
        then nextTick s @ [MessageEv (hd (pending s))]
      else nextTick s)"
  by (simp only: isFull_remove)
     (auto simp: remove_def Let_def cancelExtension_def get_pending_def dispense_def)

lemma isFull_fields:
  "isFull s =
     (js_ge (int (length (messages s))) (options s ''maxMessages'')
      \<or> js_ge (bytes s) (options s ''maxBytes''))"
  by (simp add: isFull_def get_size_def)

lemma nextTick_clear:
  "nextTick (snd (clear s)) = (if isFull s then nextTick s @ [Free] else nextTick s)"
  by (simp add: clear_def Let_def cancelExtension_def)

lemma modAcks_add: "modAcks (add jitter m s) = modAcks s"
  by (simp add: add_def Let_def scheduleExtension_def dispense_def)

lemma fresh_fields:
  "bytes (constructed sub opts) = 0" "messages (constructed sub opts) = []"
  "pending (constructed sub opts) = []" "options (constructed sub opts) = defaults ++ opts"
  "subscriber (constructed sub opts) = sub" "nextTick (constructed sub opts) = []"
  "emitted (constructed sub opts) = []" "modAcks (constructed sub opts) = []"
  by (simp_all add: constructed_def)

lemma scheduleExtension_fields [simp]:
  "messages (scheduleExtension jitter s) = messages s"
  "pending (scheduleExtension jitter s) = pending s"
  "modAcks (scheduleExtension jitter s) = modAcks s"
  "nextTick (scheduleExtension jitter s) = nextTick s"
  "bytes (scheduleExtension jitter s) = bytes s"
  "options (scheduleExtension jitter s) = options s"
  "subscriber (scheduleExtension jitter s) = subscriber s"
  by (simp_all add: scheduleExtension_def)

subsection \<open>Evaluating the examples\<close>

lemma one_at_a_time_options:
  "(defaults ++ one_at_a_time) ''allowExcessMessages'' = Some (Boolean False)"
  "(defaults ++ one_at_a_time) ''maxMessages'' = Some (Number 1)"
  "(defaults ++ one_at_a_time) ''maxBytes'' = Some (Number maxOutstandingBytes)"
  by (simp_all add: defaults_def one_at_a_time_def map_add_def)

lemma two_at_a_time_options:
  "(defaults ++ two_at_a_time) ''allowExcessMessages'' = Some (Boolean False)"
  "(defaults ++ two_at_a_time) ''maxMessages'' = Some (Number 2)"
  "(defaults ++ two_at_a_time) ''maxBytes'' = Some (Number maxOutstandingBytes)"
  by (simp_all add: defaults_def two_at_a_time_def map_add_def)

lemma default_options:
  "(defaults ++ Map.empty) ''allowExcessMessages'' = Some (Boolean True)"
  "(defaults ++ Map.empty) ''maxMessages'' = Some (Number maxOutstandingMessages)"
  "(defaults ++ Map.empty) ''maxBytes'' = Some (Number maxOutstandingBytes)"
  by (simp_all add: defaults_def)

lemmas demo_eval =
  fresh_fields messages_add bytes_add options_add subscriber_add pending_add nextTick_add
  emitted_add modAcks_add isFull_fields messages_remove bytes_remove options_remove
  subscriber_remove pending_remove nextTick_remove emitted_remove modAcks_remove
  messages_clear bytes_clear pending_clear options_clear subscriber_clear emitted_clear
  nextTick_clear set_add_def set_delete_def demo_messages_distinct
  maxOutstandingBytes_def maxOutstandingMessages_def

lemma demo_lengths:
  "msg_length msgA = 10" "msg_length msgB = 5" "msg_length msgC = 5" "msg_length msgD = 1"
  by (simp_all add: msgA_def msgB_def msgC_def msgD_def)

lemma three_added_fields:
  "messages three_added = [msgA, msgB, msgC]" "pending three_added = [msgC]"
  "nextTick three_added = [MessageEv msgA, MessageEv msgB]" "emitted three_added = [Full]"
  "bytes three_added = 20" "options three_added = defaults ++ two_at_a_time"
  "subscriber three_added = demo_subscriber"
  by (simp_all add: three_added_def demo_eval two_at_a_time_options demo_subscriber_def
      demo_lengths)

lemma three_added_removed:
  "isFull three_added" "isFull (remove msgA three_added)"
  "messages (remove msgA three_added) = [msgB, msgC]"
  "pending (remove msgA three_added) = []"
  "nextTick (remove msgA three_added) = [MessageEv msgA, MessageEv msgB, MessageEv msgC]"
  by (simp_all add: nextTick_remove pending_remove messages_remove bytes_remove
      options_remove isFull_fields three_added_fields two_at_a_time_options set_delete_def
      demo_messages_distinct demo_subscriber_def maxOutstandingBytes_def demo_lengths)

lemma ten_bytes_options:
  "(defaults ++ ten_bytes) ''allowExcessMessages'' = Some (Boolean False)"
  "(defaults ++ ten_bytes) ''maxMessages'' = Some (Number maxOutstandingMessages)"
  "(defaults ++ ten_bytes) ''maxBytes'' = Some (Number 10)"
  by (simp_all add: defaults_def ten_bytes_def map_add_def)

lemma msgE_facts:
  "msgE \<noteq> msgA" "msgA \<noteq> msgE" "msgE \<noteq> msgC" "msgC \<noteq> msgE" "msg_length msgE = 5"
  "lifespan hour_later msgE = 10" "lifespan hour_later msgC = 60"
  by (simp_all add: msgA_def msgC_def msgE_def lifespan_def hour_later_def)

lemma flip_next_fields:
  "messages flip_next = [msgB, msgC]" "pending flip_next = [msgC]" "bytes flip_next = 10"
  "options flip_next = defaults ++ ten_bytes" "subscriber flip_next = demo_subscriber"
  "nextTick flip_next = [MessageEv msgA, MessageEv msgB]" "emitted flip_next = [Full]"
  by (simp_all add: flip_next_def demo_eval ten_bytes_options demo_lengths demo_subscriber_def)

lemma before_sweep_fields:
  "messages before_sweep = [msgE, msgC]" "pending before_sweep = [msgC]"
  "bytes before_sweep = 10" "options before_sweep = defaults ++ ten_bytes"
  "subscriber before_sweep = demo_subscriber" "modAcks before_sweep = []"
  "nextTick before_sweep = [MessageEv msgA, MessageEv msgE]"
  by (simp_all add: before_sweep_def demo_eval ten_bytes_options demo_lengths msgE_facts
      demo_subscriber_def)

lemma swept:
  "messages (extendDeadlines hour_later 0 before_sweep) = [msgE]"
  "pending (extendDeadlines hour_later 0 before_sweep) = [msgC]"
  "modAcks (extendDeadlines hour_later 0 before_sweep) = [ModAck msgE 10]"
  "nextTick (extendDeadlines hour_later 0 before_sweep) = [MessageEv msgA, MessageEv msgE, Free]"
  "bytes (extendDeadlines hour_later 0 before_sweep) = 5"
  "options (extendDeadlines hour_later 0 before_sweep) = defaults ++ ten_bytes"
  "subscriber (extendDeadlines hour_later 0 before_sweep) = demo_subscriber"
  by (simp_all add: extendDeadlines_def extendOne_def Let_def before_sweep_fields msgE_facts
      demo_eval ten_bytes_options demo_lengths demo_subscriber_def)

section \<open>The byte counter and the size\<close>

lemma counted_add: "counted s \<Longrightarrow> m \<notin> set (messages s) \<Longrightarrow> counted (add jitter m s)"
  by (simp add: counted_def messages_add bytes_add set_add_def total_length_def)

lemma counted_remove: "counted s \<Longrightarrow> counted (remove m s)"
  by (cases "m \<in> set (messages s)")
     (simp_all add: counted_def messages_remove bytes_remove total_length_delete,
      simp_all add: set_delete_def distinct_removeAll)

lemma counted_clear: "counted (snd (clear s))"
  by (simp add: counted_def messages_clear bytes_clear total_length_def)

lemma counted_runNextTick: "counted s \<Longrightarrow> counted (runNextTick s)"
  by (simp add: counted_def runNextTick_def split: list.splits)

lemma counted_run: "counted s \<Longrightarrow> adds_absent s xs \<Longrightarrow> counted (run xs s)"
proof (induction xs arbitrary: s)
  case Nil
  then show ?case by simp
next
  case (Cons x xs)
  then show ?case
    by (cases x) (simp_all add: counted_add counted_remove counted_clear counted_runNextTick)
qed

lemma counted_new: "new_LeaseManager sub opts = Inr s0 \<Longrightarrow> counted s0"
  by (auto simp: new_LeaseManager_def setOptions_def counted_def total_length_def)

text \<open>
  Claim C1. Take a manager as its constructor returns it and any sequence of \<open>add\<close>,
  \<open>remove\<close> and \<open>clear\<close> calls (and ticks of the event loop) in which every \<open>add\<close> is
  given a message that is not held at that moment. After the sequence, and so
  after each of its calls, \<open>bytes\<close> is the sum of the lengths of the held messages,
  it is not negative, and \<open>size\<close> is the number of held messages.
\<close>

theorem bytes_is_total_length:
  assumes "new_LeaseManager sub opts = Inr s0" and "adds_absent s0 xs"
  shows "bytes (run xs s0) = total_length (messages (run xs s0))
       \<and> 0 \<le> bytes (run xs s0)
       \<and> get_size (run xs s0) = card (set (messages (run xs s0)))"
proof -
  have "counted (run xs s0)"
    using assms by (simp add: counted_new counted_run)
  then show ?thesis
    by (simp add: counted_def total_length_nonneg get_size_def distinct_card)
qed

theorem bytes_is_total_length_witness:
  "new_LeaseManager demo_subscriber Map.empty = Inr (constructed demo_subscriber Map.empty)
   \<and> adds_absent (constructed demo_subscriber Map.empty) [Add 0 msgA, Add 0 msgB, Remove msgA]
   \<and> messages (run [Add 0 msgA, Add 0 msgB, Remove msgA]
        (constructed demo_subscriber Map.empty)) = [msgB]
   \<and> bytes (run [Add 0 msgA, Add 0 msgB, Remove msgA]
        (constructed demo_subscriber Map.empty)) = 5
   \<and> get_size (run [Add 0 msgA, Add 0 msgB, Remove msgA]
        (constructed demo_subscriber Map.empty)) = 1"
proof -
  let ?s0 = "constructed demo_subscriber Map.empty"
  let ?xs = "[Add 0 msgA, Add 0 msgB, Remove msgA]"
  have h1: "new_LeaseManager demo_subscriber Map.empty = Inr ?s0"
    by (rule new_LeaseManager_constructed)
  have h2: "adds_absent ?s0 ?xs"
    by (simp add: messages_add set_add_def demo_messages_distinct constructed_def)
  have m: "messages (run ?xs ?s0) = [msgB]"
    by (simp add: messages_add messages_remove set_add_def set_delete_def
        demo_messages_distinct constructed_def)
  from bytes_is_total_length [OF h1 h2] h1 h2 m show ?thesis
    by (simp add: total_length_def msgB_def)
qed

section \<open>Adding a message that is already held\<close>

text \<open>
  Claim C9. When \<open>add\<close> is given a message that is already held, the set of held
  messages and its size do not change, \<open>bytes\<close> still grows by the length of the
  message, and the message is dispensed again (when excess messages are allowed or
  the manager was not full) or is pushed on the pending queue again (otherwise).
\<close>

theorem add_held_message_counts_twice:
  assumes "m \<in> set (messages s)"
  shows "get_size (add jitter m s) = get_size s
       \<and> messages (add jitter m s) = messages s
       \<and> bytes (add jitter m s) = bytes s + int (msg_length m)
       \<and> (if truthy (options s ''allowExcessMessages'') \<or> \<not> isFull s
          then pending (add jitter m s) = pending s
             \<and> nextTick (add jitter m s) = nextTick (dispense m s)
          else pending (add jitter m s) = pending s @ [m]
             \<and> nextTick (add jitter m s) = nextTick s)"
  using assms
  by (simp add: get_size_def messages_add bytes_add set_add_def pending_add nextTick_add
      dispense_def)

theorem add_held_message_counts_twice_witness:
  "msgA \<in> set (messages (add 0 msgA (constructed demo_subscriber one_at_a_time)))
   \<and> get_size (add 0 msgA (add 0 msgA (constructed demo_subscriber one_at_a_time))) = 1
   \<and> bytes (add 0 msgA (add 0 msgA (constructed demo_subscriber one_at_a_time))) = 20
   \<and> pending (add 0 msgA (add 0 msgA (constructed demo_subscriber one_at_a_time))) = [msgA]"
proof -
  let ?s = "add 0 msgA (constructed demo_subscriber one_at_a_time)"
  have held: "msgA \<in> set (messages ?s)"
    by (simp add: messages_add set_add_def constructed_def)
  have s: "get_size ?s = 1" "bytes ?s = 10" "pending ?s = []" "isFull ?s"
    "\<not> truthy (options ?s ''allowExcessMessages'')"
    by (simp_all add: get_size_def demo_eval one_at_a_time_options msgA_def)
  from add_held_message_counts_twice [OF held, of 0] held s show ?thesis
    by (simp add: msgA_def)
qed

section \<open>Options\<close>

text \<open>
  Claim C10. \<open>setOptions\<close> always returns normally, and the options it stores are the
  defaults (\<open>allowExcessMessages\<close> true, the default \<open>maxBytes\<close> and \<open>maxMessages\<close>)
  overwritten by exactly the properties the argument has: a property the argument
  lacks gets its default, whatever the options were before.
\<close>

theorem setOptions_replaces:
  "setOptions opts s =
     Inr (s\<lparr>options := \<lambda>k. case opts k of
            Some v \<Rightarrow> Some v
          | None \<Rightarrow>
              if k = ''allowExcessMessages'' then Some (Boolean True)
              else if k = ''maxBytes'' then Some (Number maxOutstandingBytes)
              else if k = ''maxMessages'' then Some (Number maxOutstandingMessages)
              else None\<rparr>)
   \<and> setOptions opts (s\<lparr>options := previous\<rparr>) = setOptions opts s"
proof -
  have "defaults ++ opts = (\<lambda>k. case opts k of
            Some v \<Rightarrow> Some v
          | None \<Rightarrow>
              if k = ''allowExcessMessages'' then Some (Boolean True)
              else if k = ''maxBytes'' then Some (Number maxOutstandingBytes)
              else if k = ''maxMessages'' then Some (Number maxOutstandingMessages)
              else None)"
    by (rule ext) (simp add: map_add_def defaults_def split: option.splits)
  then show ?thesis
    by (simp add: setOptions_def)
qed

text \<open>
  Claim C8. The documentation of \<open>setOptions\<close> says that it throws a \<open>RangeError\<close> when
  both \<open>maxExtension\<close> and \<open>maxExtensionMinutes\<close> are set. The method has no check and no
  \<open>throw\<close>: given both, it returns normally and stores both, and so does the
  constructor.
\<close>

theorem conflicting_extensions_accepted:
  "setOptions conflicting_extensions s = Inr (s\<lparr>options := defaults ++ conflicting_extensions\<rparr>)
   \<and> new_LeaseManager sub conflicting_extensions = Inr (constructed sub conflicting_extensions)
   \<and> options (constructed sub conflicting_extensions) ''maxExtension'' = Some (Number 10)
   \<and> options (constructed sub conflicting_extensions) ''maxExtensionMinutes'' = Some (Number 5)"
  by (simp add: setOptions_def new_LeaseManager_constructed constructed_def
      conflicting_extensions_def)

section \<open>The timeout of the sweep\<close>

text \<open>
  Claim C7, amended. The timeout is \<open>(ackDeadline * 1000 * 0.9 - modAckLatency) * jitter\<close>,
  and it is the timeout of the timer that \<open>scheduleExtension\<close> sets. When \<open>jitter\<close> is in
  \<open>[0, 1)\<close> and the latency is at most nine tenths of the deadline, the timeout lies
  between 0 and \<open>ackDeadline * 1000 * 0.9 - modAckLatency\<close>.
\<close>

theorem timeout_in_range:
  assumes "0 \<le> jitter" and "jitter < 1"
    and "modAckLatency (subscriber s) \<le> ackDeadline (subscriber s) * 1000 * (9 / 10)"
  shows "getNextExtensionTimeoutMs jitter s =
           (ackDeadline (subscriber s) * 1000 * (9 / 10) - modAckLatency (subscriber s)) * jitter
       \<and> 0 \<le> getNextExtensionTimeoutMs jitter s
       \<and> getNextExtensionTimeoutMs jitter s
           \<le> ackDeadline (subscriber s) * 1000 * (9 / 10) - modAckLatency (subscriber s)
       \<and> timer (scheduleExtension jitter s) = Some (getNextExtensionTimeoutMs jitter s)"
proof -
  let ?room = "ackDeadline (subscriber s) * 1000 * (9 / 10) - modAckLatency (subscriber s)"
  have eq: "getNextExtensionTimeoutMs jitter s = ?room * jitter"
    by (simp add: getNextExtensionTimeoutMs_def)
  have room: "0 \<le> ?room"
    using assms(3) by simp
  have lo: "0 \<le> ?room * jitter"
    using room assms(1) by (rule mult_nonneg_nonneg)
  have "?room * jitter \<le> ?room * 1"
    using room assms(2) by (intro mult_left_mono) simp_all
  then have hi: "?room * jitter \<le> ?room"
    by simp
  show ?thesis
    using eq lo hi by (simp add: scheduleExtension_def)
qed

theorem timeout_in_range_witness:
  "(0::real) \<le> 1 / 2 \<and> (1 / 2 :: real) < 1
   \<and> modAckLatency (subscriber (constructed demo_subscriber Map.empty))
       \<le> ackDeadline (subscriber (constructed demo_subscriber Map.empty)) * 1000 * (9 / 10)
   \<and> getNextExtensionTimeoutMs (1 / 2) (constructed demo_subscriber Map.empty) = 4500
   \<and> 0 \<le> getNextExtensionTimeoutMs (1 / 2) (constructed demo_subscriber Map.empty)
   \<and> getNextExtensionTimeoutMs (1 / 2) (constructed demo_subscriber Map.empty) \<le> 9000"
proof -
  let ?s = "constructed demo_subscriber Map.empty"
  have h1: "(0::real) \<le> 1 / 2" and h2: "(1 / 2 :: real) < 1"
    by simp_all
  have h3: "modAckLatency (subscriber ?s) \<le> ackDeadline (subscriber ?s) * 1000 * (9 / 10)"
    by (simp add: constructed_def demo_subscriber_def)
  from timeout_in_range [OF h1 h2 h3] h3 show ?thesis
    by (simp add: constructed_def demo_subscriber_def)
qed

text \<open>
  With a latency above nine tenths of the deadline the timeout is negative: the claim as
  it is stated, for all values of the deadline and the latency, does not hold.
\<close>

theorem timeout_negative_counterexample:
  "getNextExtensionTimeoutMs (1 / 2) (constructed slow_subscriber Map.empty) = - 500
   \<and> \<not> 0 \<le> getNextExtensionTimeoutMs (1 / 2) (constructed slow_subscriber Map.empty)"
  by (simp add: getNextExtensionTimeoutMs_def constructed_def slow_subscriber_def)

section \<open>The sweep\<close>

lemma extendOne_young:
  "lifespan clock m < maxExtensionMinutes (subscriber s) \<Longrightarrow>
   messages (extendOne clock m s) = messages s
   \<and> modAcks (extendOne clock m s) = modAcks s @ [renew s m]
   \<and> subscriber (extendOne clock m s) = subscriber s"
  by (simp add: extendOne_def renew_def)

lemma extendOne_old:
  "\<not> lifespan clock m < maxExtensionMinutes (subscriber s) \<Longrightarrow>
   messages (extendOne clock m s) = removeAll m (messages s)
   \<and> modAcks (extendOne clock m s) = modAcks s
   \<and> subscriber (extendOne clock m s) = subscriber s"
  by (simp add: extendOne_def messages_remove modAcks_remove subscriber_remove set_delete_def)

lemma filter_removeAll_old:
  "\<not> P x \<Longrightarrow>
   filter (\<lambda>m. m \<notin> set xs \<or> P m) (removeAll x ys) =
   filter (\<lambda>m. m \<notin> set (x # xs) \<or> P m) ys"
  by (induction ys) auto

lemma sweep_loop:
  "subscriber (foldl (\<lambda>t m. extendOne clock m t) s xs) = subscriber s
   \<and> messages (foldl (\<lambda>t m. extendOne clock m t) s xs) =
       filter (\<lambda>m. m \<notin> set xs \<or> lifespan clock m < maxExtensionMinutes (subscriber s))
         (messages s)
   \<and> modAcks (foldl (\<lambda>t m. extendOne clock m t) s xs) =
       modAcks s @ map (renew s)
         (filter (\<lambda>m. lifespan clock m < maxExtensionMinutes (subscriber s)) xs)"
proof (induction xs arbitrary: s)
  case Nil
  then show ?case by simp
next
  case (Cons x xs)
  show ?case
  proof (cases "lifespan clock x < maxExtensionMinutes (subscriber s)")
    case True
    have "filter (\<lambda>m. m \<notin> set xs \<or> lifespan clock m < maxExtensionMinutes (subscriber s))
            (messages s) =
          filter (\<lambda>m. m \<notin> set (x # xs) \<or> lifespan clock m < maxExtensionMinutes (subscriber s))
            (messages s)"
      using True by (intro filter_cong) auto
    with True Cons [of "extendOne clock x s"] extendOne_young [OF True] show ?thesis
      by (simp add: renew_def)
  next
    case False
    have "filter (\<lambda>m. m \<notin> set xs \<or> lifespan clock m < maxExtensionMinutes (subscriber s))
            (removeAll x (messages s)) =
          filter (\<lambda>m. m \<notin> set (x # xs) \<or> lifespan clock m < maxExtensionMinutes (subscriber s))
            (messages s)"
      using False by (rule filter_removeAll_old)
    with False Cons [of "extendOne clock x s"] extendOne_old [OF False] show ?thesis
      by (simp add: renew_def)
  qed
qed

lemma sweep_messages:
  "messages (extendDeadlines clock jitter s) =
     filter (\<lambda>m. lifespan clock m < maxExtensionMinutes (subscriber s)) (messages s)"
proof -
  have "filter (\<lambda>m. m \<notin> set (messages s) \<or> lifespan clock m < maxExtensionMinutes (subscriber s))
          (messages s) =
        filter (\<lambda>m. lifespan clock m < maxExtensionMinutes (subscriber s)) (messages s)"
    by (intro filter_cong) auto
  then show ?thesis
    using sweep_loop [of clock s "messages s"]
    by (simp add: extendDeadlines_def Let_def scheduleExtension_def)
qed

lemma sweep_modAcks:
  "modAcks (extendDeadlines clock jitter s) =
     modAcks s @ map (renew s)
       (filter (\<lambda>m. lifespan clock m < maxExtensionMinutes (subscriber s)) (messages s))"
  using sweep_loop [of clock s "messages s"]
  by (simp add: extendDeadlines_def Let_def scheduleExtension_def)

lemma renewed_renew [simp]: "renewed (renew s m) = m"
  by (simp add: renew_def)

text \<open>
  The held set and the calls. A sweep only appends modAck calls to those made before. Every held message
  whose lifespan in minutes has reached \<open>maxExtensionMinutes\<close> is no longer held after
  the sweep and no call is made for it; every younger held message stays and is
  renewed; and every call the sweep makes is for a held message that is strictly
  younger than the cap.
\<close>

lemma sweep_evicts_old_messages:
  "\<exists>calls. modAcks (extendDeadlines clock jitter s) = modAcks s @ calls
     \<and> (\<forall>m \<in> set (messages s).
          lifespan clock m \<ge> maxExtensionMinutes (subscriber s) \<longrightarrow>
            m \<notin> set (messages (extendDeadlines clock jitter s)) \<and> m \<notin> renewed ` set calls)
     \<and> (\<forall>m \<in> set (messages s).
          lifespan clock m < maxExtensionMinutes (subscriber s) \<longrightarrow>
            m \<in> set (messages (extendDeadlines clock jitter s)) \<and> renew s m \<in> set calls)
     \<and> (\<forall>c \<in> set calls.
          renewed c \<in> set (messages s)
          \<and> lifespan clock (renewed c) < maxExtensionMinutes (subscriber s))"
proof -
  let ?young = "filter (\<lambda>m. lifespan clock m < maxExtensionMinutes (subscriber s)) (messages s)"
  have "modAcks (extendDeadlines clock jitter s) = modAcks s @ map (renew s) ?young"
    by (rule sweep_modAcks)
  moreover have "\<forall>m \<in> set (messages s).
      lifespan clock m \<ge> maxExtensionMinutes (subscriber s) \<longrightarrow>
        m \<notin> set (messages (extendDeadlines clock jitter s))
        \<and> m \<notin> renewed ` set (map (renew s) ?young)"
    by (auto simp: sweep_messages)
  moreover have "\<forall>m \<in> set (messages s).
      lifespan clock m < maxExtensionMinutes (subscriber s) \<longrightarrow>
        m \<in> set (messages (extendDeadlines clock jitter s))
        \<and> renew s m \<in> set (map (renew s) ?young)"
    by (auto simp: sweep_messages)
  moreover have "\<forall>c \<in> set (map (renew s) ?young).
      renewed c \<in> set (messages s)
      \<and> lifespan clock (renewed c) < maxExtensionMinutes (subscriber s)"
    by auto
  ultimately show ?thesis
    by blast
qed

lemma sweep_evicts_old_messages_example:
  "msgA \<in> set (messages (add 0 msgD (add 0 msgA (constructed demo_subscriber Map.empty))))
   \<and> lifespan hour_later msgA = 60
   \<and> maxExtensionMinutes
        (subscriber (add 0 msgD (add 0 msgA (constructed demo_subscriber Map.empty)))) = 60
   \<and> msgA \<notin> set (messages (extendDeadlines hour_later 0
        (add 0 msgD (add 0 msgA (constructed demo_subscriber Map.empty)))))
   \<and> modAcks (extendDeadlines hour_later 0
        (add 0 msgD (add 0 msgA (constructed demo_subscriber Map.empty)))) = [ModAck msgD 10]"
proof -
  let ?s = "add 0 msgD (add 0 msgA (constructed demo_subscriber Map.empty))"
  have held: "msgA \<in> set (messages ?s)"
    by (simp add: messages_add set_add_def constructed_def)
  have age: "lifespan hour_later msgA = 60"
    by (simp add: lifespan_def hour_later_def msgA_def)
  have cap: "maxExtensionMinutes (subscriber ?s) = 60"
    by (simp add: subscriber_add constructed_def demo_subscriber_def)
  from sweep_evicts_old_messages [of hour_later 0 ?s] obtain calls where
    old: "\<forall>m \<in> set (messages ?s).
          lifespan hour_later m \<ge> maxExtensionMinutes (subscriber ?s) \<longrightarrow>
            m \<notin> set (messages (extendDeadlines hour_later 0 ?s)) \<and> m \<notin> renewed ` set calls"
    by blast
  from old held age cap have gone: "msgA \<notin> set (messages (extendDeadlines hour_later 0 ?s))"
    by simp
  have "messages ?s = [msgA, msgD]"
    by (simp add: messages_add set_add_def constructed_def msgA_def msgD_def)
  moreover have "lifespan hour_later msgD = 10"
    by (simp add: lifespan_def hour_later_def msgD_def)
  moreover have "modAcks ?s = []"
    by (simp add: demo_eval default_options)
  ultimately have "modAcks (extendDeadlines hour_later 0 ?s) = [ModAck msgD 10]"
    using age cap
    by (simp add: sweep_modAcks renew_def subscriber_add constructed_def demo_subscriber_def)
  with held age cap gone show ?thesis
    by simp
qed

text \<open>
  Claim C6. A held message whose lifespan has reached \<open>maxExtensionMinutes\<close> should be
  removed from the inventory by the sweep, with no modAck call for it. The sweep does
  make no call for it and takes it out of the held set, but it can leave it in the
  pending queue: in a manager that ten bytes fill, E (dispensed, young) and C
  (pending, an hour old) are held and the manager is full. The sweep renews E and
  removes C; removing C turns the manager to not full, so \<open>remove\<close> takes its first
  branch and does not delete C from the queue. C is still pending after the sweep,
  and the next \<open>remove\<close> dispenses it.
\<close>

theorem sweep_leaves_evicted_message_pending:
  "msgC \<in> set (messages before_sweep) \<and> msgC \<in> set (pending before_sweep)
   \<and> lifespan hour_later msgC = 60
   \<and> maxExtensionMinutes (subscriber before_sweep) = 60
   \<and> messages (extendDeadlines hour_later 0 before_sweep) = [msgE]
   \<and> modAcks (extendDeadlines hour_later 0 before_sweep) = [ModAck msgE 10]
   \<and> pending (extendDeadlines hour_later 0 before_sweep) = [msgC]
   \<and> nextTick (remove msgE (extendDeadlines hour_later 0 before_sweep)) =
        [MessageEv msgA, MessageEv msgE, Free, MessageEv msgC]"
  by (simp add: swept before_sweep_fields msgE_facts nextTick_remove pending_remove
      messages_remove bytes_remove options_remove isFull_fields set_delete_def
      ten_bytes_options demo_lengths demo_subscriber_def maxOutstandingMessages_def)

section \<open>Notifications and the event loop\<close>

text \<open>
  Claim C4, amended. An \<open>add\<close> that turns the manager from not full to full emits \<open>full\<close>
  within the call: the event is delivered when \<open>add\<close> returns, and \<open>add\<close> hands nothing to
  \<open>process.nextTick\<close> but the dispense of its message. \<open>remove\<close> and \<open>clear\<close> deliver no
  event within the call; the \<open>free\<close> of a \<open>remove\<close> that turns the manager from full to
  not full, and of a \<open>clear\<close> of a full manager, is handed to \<open>process.nextTick\<close>.
\<close>

theorem full_synchronous_free_deferred:
  "(\<not> isFull s \<and> isFull (add jitter m s) \<longrightarrow> emitted (add jitter m s) = emitted s @ [Full])
   \<and> (nextTick (add jitter m s) = nextTick s
        \<or> nextTick (add jitter m s) = nextTick s @ [MessageEv m])
   \<and> emitted (remove m s) = emitted s
   \<and> (m \<in> set (messages s) \<and> isFull s \<and> \<not> isFull (remove m s) \<longrightarrow>
        nextTick (remove m s) = nextTick s @ [Free])
   \<and> emitted (snd (clear s)) = emitted s
   \<and> (isFull s \<longrightarrow> nextTick (snd (clear s)) = nextTick s @ [Free])"
  by (simp add: emitted_add nextTick_add emitted_remove nextTick_remove emitted_clear
      nextTick_clear)

theorem full_synchronous_free_deferred_witness:
  "\<not> isFull (constructed demo_subscriber one_at_a_time)
   \<and> isFull (add 0 msgA (constructed demo_subscriber one_at_a_time))
   \<and> emitted (add 0 msgA (constructed demo_subscriber one_at_a_time)) = [Full]
   \<and> msgA \<in> set (messages (add 0 msgA (constructed demo_subscriber one_at_a_time)))
   \<and> \<not> isFull (remove msgA (add 0 msgA (constructed demo_subscriber one_at_a_time)))
   \<and> emitted (remove msgA (add 0 msgA (constructed demo_subscriber one_at_a_time))) = [Full]
   \<and> nextTick (remove msgA (add 0 msgA (constructed demo_subscriber one_at_a_time))) =
        [MessageEv msgA, Free]
   \<and> nextTick (snd (clear (add 0 msgA (constructed demo_subscriber one_at_a_time)))) =
        [MessageEv msgA, Free]"
proof -
  let ?s0 = "constructed demo_subscriber one_at_a_time"
  let ?s1 = "add 0 msgA ?s0"
  have a: "\<not> isFull ?s0" "isFull ?s1" "msgA \<in> set (messages ?s1)"
    "nextTick ?s1 = [MessageEv msgA]" "emitted ?s0 = []"
    by (simp_all add: demo_eval one_at_a_time_options demo_subscriber_def)
  have b: "\<not> isFull (remove msgA ?s1)"
    by (simp add: demo_eval one_at_a_time_options)
  from full_synchronous_free_deferred [of ?s0 0 msgA] a
  have c: "emitted ?s1 = [Full]"
    by simp
  from full_synchronous_free_deferred [of ?s1 0 msgA] a b c
  show ?thesis
    by simp
qed

text \<open>
  The first \<open>add\<close> to a manager that one message fills: \<open>full\<close> has been delivered when
  the call returns, and the queue of deferred callbacks holds the dispense only.
\<close>

theorem full_not_deferred_counterexample:
  "\<not> isFull (constructed demo_subscriber one_at_a_time)
   \<and> isFull (add 0 msgA (constructed demo_subscriber one_at_a_time))
   \<and> emitted (add 0 msgA (constructed demo_subscriber one_at_a_time)) = [Full]
   \<and> nextTick (add 0 msgA (constructed demo_subscriber one_at_a_time)) = [MessageEv msgA]"
  by (simp add: demo_eval one_at_a_time_options demo_subscriber_def)

section \<open>Dispensing from the pending queue\<close>

text \<open>
  Claim C5, amended. Take a \<open>remove\<close> of a held message that does not turn the manager
  from full to not full and whose message is not in the pending queue. If the queue
  is empty nothing is dispensed; otherwise its oldest message, and no other, leaves the
  queue and is dispensed (delivered on a later tick if the subscriber is open, dropped
  if not). No capacity is checked: the manager may still be full. In the scenario of
  the spec (excess messages wait, two messages fill the manager, A, B and C added),
  C is pending; removing A dispenses C, and B and C remain held.
\<close>

theorem remove_dispenses_oldest_pending:
  "(m \<in> set (messages s) \<and> \<not> (isFull s \<and> \<not> isFull (remove m s)) \<and> m \<notin> set (pending s) \<longrightarrow>
      messages (remove m s) = set_delete m (messages s)
      \<and> emitted (remove m s) = emitted s
      \<and> (case pending s of
            [] \<Rightarrow> pending (remove m s) = [] \<and> nextTick (remove m s) = nextTick s
          | p # ps \<Rightarrow> pending (remove m s) = ps
              \<and> nextTick (remove m s) = nextTick (dispense p s)))
   \<and> pending three_added = [msgC]
   \<and> nextTick three_added = [MessageEv msgA, MessageEv msgB]
   \<and> messages (remove msgA three_added) = [msgB, msgC]
   \<and> pending (remove msgA three_added) = []
   \<and> nextTick (remove msgA three_added) = [MessageEv msgA, MessageEv msgB, MessageEv msgC]"
proof -
  have "messages (remove m s) = set_delete m (messages s)
      \<and> emitted (remove m s) = emitted s
      \<and> (case pending s of
            [] \<Rightarrow> pending (remove m s) = [] \<and> nextTick (remove m s) = nextTick s
          | p # ps \<Rightarrow> pending (remove m s) = ps
              \<and> nextTick (remove m s) = nextTick (dispense p s))"
    if "m \<in> set (messages s)" and "\<not> (isFull s \<and> \<not> isFull (remove m s))"
      and "m \<notin> set (pending s)"
    using that
    by (cases "pending s")
       (auto simp: messages_remove emitted_remove pending_remove nextTick_remove dispense_def)
  then show ?thesis
    by (simp only: three_added_fields three_added_removed) simp
qed

theorem remove_dispenses_oldest_pending_witness:
  "msgA \<in> set (messages three_added) \<and> isFull three_added
   \<and> isFull (remove msgA three_added) \<and> msgA \<notin> set (pending three_added)
   \<and> pending three_added = [msgC]
   \<and> pending (remove msgA three_added) = []
   \<and> nextTick (remove msgA three_added) = nextTick three_added @ [MessageEv msgC]"
  using remove_dispenses_oldest_pending [of msgA three_added]
  by (simp add: three_added_fields three_added_removed demo_messages_distinct)

text \<open>
  In that scenario the manager is full before and after A is removed (B and C are
  held, and two messages fill it), and C is dispensed all the same: a dispense from
  the queue does not wait for room.
\<close>

theorem dispense_without_room_counterexample:
  "msgA \<in> set (messages three_added) \<and> msgA \<notin> set (pending three_added)
   \<and> isFull three_added \<and> isFull (remove msgA three_added)
   \<and> nextTick (remove msgA three_added) = nextTick three_added @ [MessageEv msgC]"
  by (simp add: three_added_fields three_added_removed demo_messages_distinct)

section \<open>Alternation of full and free\<close>







lemma isFull_runNextTick [simp]: "isFull (runNextTick s) = isFull s"
  by (simp add: runNextTick_def split: list.splits)

lemma notifications_append [simp]:
  "notifications (es @ fs) = notifications es @ notifications fs"
  by (simp add: notifications_def)

lemma notifications_simps [simp]:
  "notifications [] = []" "notifications [Full] = [Full]" "notifications [Free] = [Free]"
  "notifications [MessageEv m] = []"
  by (simp_all add: notifications_def)















text \<open>
  A manager that is full while it is empty answers every \<open>clear\<close> with \<open>free\<close>.
\<close>

lemma free_twice_when_empty_is_full:
  "isFull (constructed demo_subscriber no_room)
   \<and> notifications (emitted (run [Clear, Tick, Clear, Tick]
        (constructed demo_subscriber no_room))) = [Free, Free]"
  by (simp add: runNextTick_def notifications_def demo_eval no_room_def map_add_def)

section \<open>The pending queue and the held set\<close>

lemma dispensed_add:
  "dispensed (add jitter m s) m' \<Longrightarrow> dispensed s m' \<or> m' = m"
  by (auto simp: dispensed_def nextTick_add emitted_add split: if_splits)

lemma dispensed_add_pending:
  "dispensed (add jitter m s) m' \<Longrightarrow>
   \<not> (truthy (options s ''allowExcessMessages'') \<or> \<not> isFull s) \<Longrightarrow> dispensed s m'"
  by (auto simp: dispensed_def nextTick_add emitted_add split: if_splits)

lemma queued_add:
  assumes "queued H s" and "m \<notin> H"
  shows "queued (insert m H) (add jitter m s)"
proof -
  have fresh: "m \<notin> set (messages s)" "m \<notin> set (pending s)" "\<not> dispensed s m"
    using assms by (auto simp: queued_def)
  show ?thesis
    unfolding queued_def
  proof (intro conjI ballI allI impI)
    show "set (pending (add jitter m s)) \<subseteq> set (messages (add jitter m s))"
      using assms by (auto simp: queued_def pending_add messages_add set_add_def)
    show "distinct (pending (add jitter m s))"
      using assms fresh by (auto simp: queued_def pending_add)
    show "set (messages (add jitter m s)) \<subseteq> insert m H"
      using assms by (auto simp: queued_def messages_add set_add_def)
    show "m' \<in> insert m H" if "dispensed (add jitter m s) m'" for m'
      using that assms dispensed_add [of jitter m s m'] by (auto simp: queued_def)
    show "\<not> dispensed (add jitter m s) m'" if "m' \<in> set (pending (add jitter m s))" for m'
    proof (cases "truthy (options s ''allowExcessMessages'') \<or> \<not> isFull s")
      case True
      then have "m' \<in> set (pending s)"
        using that by (simp add: pending_add)
      then have "\<not> dispensed s m'" "m' \<noteq> m"
        using assms fresh by (auto simp: queued_def)
      then show ?thesis
        using dispensed_add [of jitter m s m'] by blast
    next
      case False
      then have "m' \<in> set (pending s) \<or> m' = m"
        using that by (auto simp: pending_add)
      then have "\<not> dispensed s m'"
        using assms fresh by (auto simp: queued_def)
      then show ?thesis
        using False dispensed_add_pending [of jitter m s m'] by blast
    qed
  qed
qed

lemma dispensed_remove:
  "dispensed (remove m s) m' \<Longrightarrow>
   dispensed s m' \<or> (m' \<notin> set (pending (remove m s)) \<and> pending s \<noteq> [] \<and> m' = hd (pending s)
      \<and> m \<notin> set (pending s))"
  if "distinct (pending s)"
proof (cases "m \<in> set (messages s)")
  case True
  assume d: "dispensed (remove m s) m'"
  show ?thesis
  proof (cases "pending s")
    case Nil
    then show ?thesis
      using d True by (auto simp: dispensed_def nextTick_remove emitted_remove split: if_splits)
  next
    case (Cons p ps)
    then show ?thesis
      using d True that
      by (auto simp: dispensed_def nextTick_remove emitted_remove pending_remove
          split: if_splits)
  qed
next
  case False
  assume d: "dispensed (remove m s) m'"
  from False have "remove m s = s"
    by (simp add: remove_def)
  with d show ?thesis
    by simp
qed

lemma pending_remove_subset: "set (pending (remove m s)) \<subseteq> set (pending s)"
proof (cases "m \<in> set (messages s)")
  case True
  then show ?thesis
    by (cases "pending s") (auto simp: pending_remove dest: notin_set_remove1)
next
  case False
  then show ?thesis by (simp add: remove_def)
qed

lemma distinct_pending_remove: "distinct (pending s) \<Longrightarrow> distinct (pending (remove m s))"
proof (cases "m \<in> set (messages s)")
  case True
  assume "distinct (pending s)"
  then show ?thesis
    using True by (cases "pending s") (auto simp: pending_remove)
next
  case False
  assume "distinct (pending s)"
  then show ?thesis
    using False by (simp add: remove_def)
qed

lemma removed_not_pending:
  assumes "distinct (pending s)" and "m \<in> set (messages s)"
    and "\<not> (m \<in> set (pending s) \<and> isFull s \<and> \<not> isFull (remove m s))"
  shows "m \<notin> set (pending (remove m s))"
  using assms by (cases "pending s") (auto simp: pending_remove)

lemma queued_remove:
  assumes "queued H s"
    and "\<not> (m \<in> set (messages s) \<and> m \<in> set (pending s) \<and> isFull s \<and> \<not> isFull (remove m s))"
  shows "queued H (remove m s)"
proof (cases "m \<in> set (messages s)")
  case True
  have d: "distinct (pending s)"
    using assms by (simp add: queued_def)
  show ?thesis
    unfolding queued_def
  proof (intro conjI ballI allI impI)
    show "set (pending (remove m s)) \<subseteq> set (messages (remove m s))"
      using assms(1) pending_remove_subset [of m s] removed_not_pending [OF d True] assms(2) True
      by (auto simp: queued_def messages_remove set_delete_def)
    show "distinct (pending (remove m s))"
      using d by (rule distinct_pending_remove)
    show "set (messages (remove m s)) \<subseteq> H"
      using assms(1) by (auto simp: queued_def messages_remove set_delete_def)
    show "m' \<in> H" if "dispensed (remove m s) m'" for m'
      using that assms(1) dispensed_remove [OF d, of m m']
      by (cases "pending s") (auto simp: queued_def)
    show "\<not> dispensed (remove m s) m'" if "m' \<in> set (pending (remove m s))" for m'
      using that assms(1) dispensed_remove [OF d, of m m'] pending_remove_subset [of m s]
      by (auto simp: queued_def)
  qed
next
  case False
  then have "remove m s = s"
    by (simp add: remove_def)
  then show ?thesis
    using assms by simp
qed

lemma dispensed_clear: "dispensed (snd (clear s)) m = dispensed s m"
  by (auto simp: dispensed_def nextTick_clear emitted_clear)

lemma queued_clear: "queued H s \<Longrightarrow> queued H (snd (clear s))"
  by (simp add: queued_def pending_clear messages_clear dispensed_clear)

lemma dispensed_runNextTick: "dispensed (runNextTick s) m = dispensed s m"
  by (cases "nextTick s") (auto simp: dispensed_def runNextTick_def)

lemma queued_runNextTick: "queued H s \<Longrightarrow> queued H (runNextTick s)"
proof -
  have "pending (runNextTick s) = pending s" "messages (runNextTick s) = messages s"
    by (simp_all add: runNextTick_def split: list.splits)
  then show "queued H s \<Longrightarrow> queued H (runNextTick s)"
    by (simp add: queued_def dispensed_runNextTick)
qed

lemma queued_run:
  "queued H s \<Longrightarrow> distinct (added xs) \<Longrightarrow> set (added xs) \<inter> H = {} \<Longrightarrow>
   spares_pending s xs \<Longrightarrow> \<exists>H'. queued H' (run xs s)"
proof (induction xs arbitrary: s H)
  case Nil
  then show ?case by auto
next
  case (Cons x xs)
  show ?case
  proof (cases x)
    case (Add jitter m)
    with Cons.prems have "queued (insert m H) (add jitter m s)"
      by (intro queued_add) auto
    moreover have "distinct (added xs)" "set (added xs) \<inter> insert m H = {}"
      "spares_pending (add jitter m s) xs"
      using Cons.prems Add by auto
    ultimately show ?thesis
      using Cons.IH [of "insert m H" "add jitter m s"] Add by simp
  next
    case (Remove m)
    with Cons.prems have "queued H (remove m s)"
      by (intro queued_remove) auto
    then show ?thesis
      using Cons.IH [of H "remove m s"] Cons.prems Remove by simp
  next
    case Clear
    with Cons.prems have "queued H (snd (clear s))"
      by (intro queued_clear) auto
    then show ?thesis
      using Cons.IH [of H "snd (clear s)"] Cons.prems Clear by simp
  next
    case Tick
    with Cons.prems have "queued H (runNextTick s)"
      by (intro queued_runNextTick) auto
    then show ?thesis
      using Cons.IH [of H "runNextTick s"] Cons.prems Tick by simp
  qed
qed

lemma queued_new: "new_LeaseManager sub opts = Inr s0 \<Longrightarrow> queued {} s0"
  by (auto simp: new_LeaseManager_constructed queued_def dispensed_def fresh_fields)

lemma run_append: "run (xs @ ys) s = run ys (run xs s)"
  by (induction xs arbitrary: s) simp_all

text \<open>
  Where the queue is kept in step. Take a manager as its constructor returns it and any
  sequence of \<open>add\<close>, \<open>remove\<close> and \<open>clear\<close> calls (and ticks) in which no message is added
  twice and no \<open>remove\<close> of a message in the pending queue turns the manager from full
  to not full. Then every message in the pending queue is held and has not been
  dispensed, and after a \<open>remove\<close> its message is not in the pending queue.
\<close>

lemma pending_are_held_and_not_dispensed:
  assumes "new_LeaseManager sub opts = Inr s0" and "distinct (added xs)"
    and "spares_pending s0 xs"
  shows "set (pending (run xs s0)) \<subseteq> set (messages (run xs s0))
       \<and> (\<forall>m \<in> set (pending (run xs s0)). \<not> dispensed (run xs s0) m)
       \<and> (\<forall>m. xs \<noteq> [] \<and> last xs = Remove m \<longrightarrow> m \<notin> set (pending (run xs s0)))"
proof -
  from assms obtain H where q: "queued H (run xs s0)"
    using queued_run [of "{}" s0 xs] by (auto simp: queued_new)
  have "m \<notin> set (pending (run xs s0))" if "xs \<noteq> []" and "last xs = Remove m" for m
  proof -
    from that have "xs = butlast xs @ [Remove m]"
      by (metis append_butlast_last_id)
    then have "run xs s0 = remove m (run (butlast xs) s0)"
      by (metis run_append run.simps step.simps(2))
    then have "m \<notin> set (messages (run xs s0))"
      by (simp add: messages_remove set_delete_def)
    with q show ?thesis
      by (auto simp: queued_def)
  qed
  with q show ?thesis
    by (auto simp: queued_def)
qed

lemma pending_are_held_and_not_dispensed_example:
  "new_LeaseManager demo_subscriber one_at_a_time = Inr (constructed demo_subscriber one_at_a_time)
   \<and> distinct (added [Add 0 msgA, Add 0 msgB, Add 0 msgC, Remove msgB])
   \<and> spares_pending (constructed demo_subscriber one_at_a_time)
        [Add 0 msgA, Add 0 msgB, Add 0 msgC, Remove msgB]
   \<and> pending (run [Add 0 msgA, Add 0 msgB, Add 0 msgC, Remove msgB]
        (constructed demo_subscriber one_at_a_time)) = [msgC]
   \<and> msgC \<in> set (messages (run [Add 0 msgA, Add 0 msgB, Add 0 msgC, Remove msgB]
        (constructed demo_subscriber one_at_a_time)))
   \<and> \<not> dispensed (run [Add 0 msgA, Add 0 msgB, Add 0 msgC, Remove msgB]
        (constructed demo_subscriber one_at_a_time)) msgC
   \<and> msgB \<notin> set (pending (run [Add 0 msgA, Add 0 msgB, Add 0 msgC, Remove msgB]
        (constructed demo_subscriber one_at_a_time)))"
proof -
  let ?s0 = "constructed demo_subscriber one_at_a_time"
  let ?xs = "[Add 0 msgA, Add 0 msgB, Add 0 msgC, Remove msgB]"
  have h1: "new_LeaseManager demo_subscriber one_at_a_time = Inr ?s0"
    by (rule new_LeaseManager_constructed)
  have h2: "distinct (added ?xs)"
    by (simp add: demo_messages_distinct)
  have h3: "spares_pending ?s0 ?xs"
    by (simp add: demo_eval one_at_a_time_options demo_lengths)
  have p: "pending (run ?xs ?s0) = [msgC]"
    by (simp add: demo_eval one_at_a_time_options demo_lengths)
  from pending_are_held_and_not_dispensed [OF h1 h2 h3] h1 h2 h3 p show ?thesis
    by (simp add: demo_messages_distinct)
qed

text \<open>
  A message added twice to a manager that one message fills is dispensed by the first
  \<open>add\<close> and pushed on the pending queue by the second.
\<close>

lemma twice_added_is_pending_and_dispensed:
  "pending (run [Add 0 msgA, Add 0 msgA] (constructed demo_subscriber one_at_a_time)) = [msgA]
   \<and> nextTick (run [Add 0 msgA, Add 0 msgA] (constructed demo_subscriber one_at_a_time)) =
        [MessageEv msgA]
   \<and> dispensed (run [Add 0 msgA, Add 0 msgA] (constructed demo_subscriber one_at_a_time)) msgA"
  by (simp add: dispensed_def demo_eval one_at_a_time_options demo_lengths demo_subscriber_def)

text \<open>
  Claim C2. Every message in the pending queue should be held, and a message that was
  in the pending queue should have left it when its \<open>remove\<close> returns. \<open>remove\<close> does not
  keep to this: when removing a pending message turns the manager from full to not
  full, it takes its first branch and does not reach the one that deletes the
  message from the queue. In a manager that ten bytes fill, after A (10 bytes), B
  and C (5 bytes each) were added and A was removed, B and C are held, C is pending
  and the manager is full. Removing C leaves it in the queue though it is no longer
  held, and the next \<open>remove\<close> dispenses it.
\<close>

theorem removed_at_flip_stays_pending:
  "msgC \<in> set (messages flip_next) \<and> msgC \<in> set (pending flip_next)
   \<and> isFull flip_next \<and> \<not> isFull (remove msgC flip_next)
   \<and> messages (remove msgC flip_next) = [msgB]
   \<and> pending (remove msgC flip_next) = [msgC]
   \<and> nextTick (remove msgC flip_next) = [MessageEv msgA, MessageEv msgB, Free]
   \<and> messages (remove msgB (remove msgC flip_next)) = []
   \<and> nextTick (remove msgB (remove msgC flip_next)) =
        [MessageEv msgA, MessageEv msgB, Free, MessageEv msgC]"
  by (simp add: demo_eval flip_next_fields ten_bytes_options demo_lengths demo_subscriber_def)

end
